theory Spec2Isabelle
  imports Complex_Main "HOL-Library.Word"
begin

section \<open>Data model\<close>

text \<open>
  The module \<^verbatim>\<open>netflix_aggregation.py\<close> works on NumPy arrays. An array is its shape
  together with its elements. The rank-3 prediction tensor \<^verbatim>\<open>predictions\<close> of shape
  \<^verbatim>\<open>(T, N, S)\<close> and the rank-2 label tensor of shape \<^verbatim>\<open>(N, S)\<close> are nested lists
  (outermost axis first) with the shape kept beside them, since the nested list alone
  forgets the inner extents when an outer one is 0. The argument of
  \<^verbatim>\<open>labels_from_probs\<close> has any rank, so it is a shape with the elements in row-major
  order.

  Python integers and the 64-bit counts of \<^verbatim>\<open>np.bincount\<close> are \<open>int\<close>; the casts to
  \<^verbatim>\<open>np.int32\<close> are written out as \<open>32 word\<close> (read back with \<open>sint\<close>).
  Every raise of the library calls the module makes on such arrays is a \<open>ValueError\<close>;
  the types leave out a prediction tensor of another rank or of a non-integer dtype.
\<close>

datatype error = ValueError

record 'a ndarray3 =
  shape3 :: "nat \<times> nat \<times> nat"
  data3 :: "'a list list list"

record 'a ndarray2 =
  shape2 :: "nat \<times> nat"
  data2 :: "'a list list"

record 'a ndarray =
  shape :: "nat list"
  flat :: "'a list"

type_synonym int32 = "32 word"

text \<open>An array is well formed when its elements fill its shape.\<close>

definition wf3 :: "'a ndarray3 \<Rightarrow> bool" where
  "wf3 a = (case shape3 a of (T, N, S) \<Rightarrow>
     length (data3 a) = T \<and>
     list_all (\<lambda>plane. length plane = N \<and> list_all (\<lambda>row. length row = S) plane) (data3 a))"

definition wf2 :: "'a ndarray2 \<Rightarrow> bool" where
  "wf2 a = (case shape2 a of (N, S) \<Rightarrow>
     length (data2 a) = N \<and> list_all (\<lambda>row. length row = S) (data2 a))"

definition wf_nd :: "'a ndarray \<Rightarrow> bool" where
  "wf_nd a = (length (flat a) = prod_list (shape a))"

definition entries3 :: "'a ndarray3 \<Rightarrow> 'a list" where
  "entries3 a = concat (concat (data3 a))"

section \<open>The NumPy operations the module calls\<close>

text \<open>
  \<^verbatim>\<open>np.zeros((n, s))\<close> and \<^verbatim>\<open>np.zeros((c, n, s))\<close>. The arrays \<^verbatim>\<open>result\<close> and
  \<^verbatim>\<open>clean_votes\<close> are float64 arrays that only ever hold 0, a label in 1..5 or a vote
  count; float64 stores every integer below \<open>2^53\<close> exactly, and no array in memory has
  that many elements, so their elements are modelled as \<open>int\<close>.
\<close>

definition zeros2 :: "nat \<Rightarrow> nat \<Rightarrow> int list list" where
  "zeros2 n s = replicate n (replicate s 0)"

definition zeros3 :: "nat \<Rightarrow> nat \<Rightarrow> nat \<Rightarrow> int list list list" where
  "zeros3 c n s = replicate c (zeros2 n s)"

text \<open>\<^verbatim>\<open>predictions[:, i, j]\<close>: the labels of all teachers for sample \<open>(i, j)\<close>.\<close>

definition column :: "'a ndarray3 \<Rightarrow> nat \<Rightarrow> nat \<Rightarrow> 'a list" where
  "column p i j = map (\<lambda>plane. plane ! i ! j) (data3 p)"

text \<open>
  \<^verbatim>\<open>np.bincount(x, minlength=m)\<close>: raises \<^verbatim>\<open>ValueError\<close> when \<open>x\<close> has a negative
  element; otherwise bin \<open>k\<close> counts the occurrences of \<open>k\<close> in \<open>x\<close>, and there are
  \<open>max(amax(x) + 1, m)\<close> bins (\<open>m\<close> bins for an empty \<open>x\<close>).
\<close>

definition bincount :: "int list \<Rightarrow> nat \<Rightarrow> error + int list" where
  "bincount x minlength =
     (if list_ex (\<lambda>v. v < 0) x then Inl ValueError
      else Inr (map (\<lambda>k. int (count_list x (int k)))
                  [0..<max (nat (fold max x (- 1) + 1)) minlength]))"

text \<open>The slice \<^verbatim>\<open>xs[lo:hi]\<close> for non-negative bounds.\<close>

definition slice :: "nat \<Rightarrow> nat \<Rightarrow> 'a list \<Rightarrow> 'a list" where
  "slice lo hi xs = drop lo (take hi xs)"

text \<open>
  \<^verbatim>\<open>np.argmax\<close> of a one-dimensional array: it raises \<^verbatim>\<open>ValueError\<close> on an empty
  sequence, and otherwise scans from the left, keeping the running maximum \<open>mp\<close> and its
  index, and moving on only to a strictly larger element. The element type is a linear
  order: integers, or floating-point values other than NaN.
\<close>

fun argmax_loop :: "'a::linorder list \<Rightarrow> nat \<Rightarrow> 'a \<Rightarrow> nat \<Rightarrow> nat" where
  "argmax_loop [] i mp max_ind = max_ind"
| "argmax_loop (x # xs) i mp max_ind =
     (if mp < x then argmax_loop xs (Suc i) x i else argmax_loop xs (Suc i) mp max_ind)"

definition argmax :: "'a::linorder list \<Rightarrow> error + nat" where
  "argmax xs = (case xs of [] \<Rightarrow> Inl ValueError | x # rest \<Rightarrow> Inr (argmax_loop rest 1 x 0))"

text \<open>
  \<^verbatim>\<open>np.asarray(a, dtype=np.int32)\<close> converts element by element as a C cast does: an
  integer outside the 32-bit range wraps around.
\<close>

definition as_int32 :: "int \<Rightarrow> int32" where
  "as_int32 v = word_of_int v"

section \<open>The counting step\<close>

text \<open>
  Lines 75 and 120 of the source, the same expression in both aggregators:
  \<^verbatim>\<open>label_counts = np.bincount(predictions[:,i,j], minlength=6)[1:6]\<close>.
\<close>

definition label_counts :: "int ndarray3 \<Rightarrow> nat \<Rightarrow> nat \<Rightarrow> error + int list" where
  "label_counts predictions i j =
     (case bincount (column predictions i j) 6 of
        Inl e \<Rightarrow> Inl e
      | Inr bins \<Rightarrow> Inr (slice 1 6 bins))"

section \<open>Loops\<close>

text \<open>
  \<^verbatim>\<open>for x in xs: body\<close> on a state \<open>s\<close>: the body maps the state to the next one or
  raises, and the loop stops at the first exception.
\<close>

fun for_loop :: "'i list \<Rightarrow> ('i \<Rightarrow> 's \<Rightarrow> 'x + 's) \<Rightarrow> 's \<Rightarrow> 'x + 's" where
  "for_loop [] body s = Inr s"
| "for_loop (x # xs) body s =
     (case body x s of Inl e \<Rightarrow> Inl e | Inr s' \<Rightarrow> for_loop xs body s')"

text \<open>The assignment \<^verbatim>\<open>a[i,j] = v\<close> on a rank-2 array.\<close>

definition set2 :: "'a list list \<Rightarrow> nat \<Rightarrow> nat \<Rightarrow> 'a \<Rightarrow> 'a list list" where
  "set2 a i j v = a[i := (a ! i)[j := v]]"

text \<open>The assignment \<^verbatim>\<open>a[:,i,j] = vs\<close> on a rank-3 array whose first extent is \<open>length vs\<close>:
  plane \<open>c\<close> receives \<open>vs[c]\<close> at \<open>(i, j)\<close>.\<close>

definition set_column :: "'a list list list \<Rightarrow> nat \<Rightarrow> nat \<Rightarrow> 'a list \<Rightarrow> 'a list list list" where
  "set_column a i j vs = map (\<lambda>c. set2 (a ! c) i j (vs ! c)) [0..<length a]"

section \<open>\<^verbatim>\<open>aggregation_most_frequent\<close>\<close>

text \<open>
  The body of the inner loop (lines 120 to 125) for sample \<open>(i, j)\<close>, on the array
  \<^verbatim>\<open>result\<close>. The counts are cast to int32 before the argmax, which compares them as
  signed 32-bit integers.
\<close>

definition amf_body :: "int ndarray3 \<Rightarrow> nat \<Rightarrow> nat \<Rightarrow> int list list \<Rightarrow> error + int list list" where
  "amf_body predictions i j result =
     (case label_counts predictions i j of
        Inl e \<Rightarrow> Inl e
      | Inr lc \<Rightarrow>
          (case argmax (map (\<lambda>c. sint (as_int32 c)) lc) of
             Inl e \<Rightarrow> Inl e
           | Inr a \<Rightarrow> Inr (set2 result i j (int a + 1))))"

definition aggregation_most_frequent :: "int ndarray3 \<Rightarrow> error + int32 ndarray2" where
  "aggregation_most_frequent predictions =
     (case shape3 predictions of (t, n, s) \<Rightarrow>
        (case for_loop [0..<n] (\<lambda>i. for_loop [0..<s] (\<lambda>j. amf_body predictions i j))
                (zeros2 n s) of
           Inl e \<Rightarrow> Inl e
         | Inr result \<Rightarrow> Inr \<lparr>shape2 = (n, s), data2 = map (map as_int32) result\<rparr>))"

section \<open>\<^verbatim>\<open>noisy_max\<close>\<close>

text \<open>
  The floating-point arithmetic and the random generator are NumPy's, not the module's,
  and are parameters of the model: \<open>float32 env c\<close> is the float32 value of the count
  \<open>c\<close> (line 81), \<open>iadd env x d\<close> the float32 value that \<^verbatim>\<open>x += d\<close> stores for a
  drawn variate \<open>d\<close> (line 85), and \<open>variate env b k\<close> the variate that draw number \<open>k\<close>
  of the process-wide generator returns at scale \<open>b\<close>. The state of the generator is the
  number of draws made so far. Float32 values are compared by a linear order, so NaN is
  left out (a variate drawn at a finite scale is never NaN).

  \<^verbatim>\<open>np.random.laplace(loc=0.0, scale=b)\<close> raises \<^verbatim>\<open>ValueError\<close> for a negative scale,
  drawing nothing, and otherwise returns the next variate of the stream.
\<close>

record ('f, 'n) numerics =
  float32 :: "int \<Rightarrow> 'f"
  iadd :: "'f \<Rightarrow> 'n \<Rightarrow> 'f"
  variate :: "real \<Rightarrow> nat \<Rightarrow> 'n"

definition laplace :: "('f, 'n) numerics \<Rightarrow> real \<Rightarrow> nat \<Rightarrow> error \<times> nat + 'n \<times> nat" where
  "laplace env scale g =
     (if scale < 0 then Inl (ValueError, g) else Inr (variate env scale g, Suc g))"

text \<open>
  The loop of lines 84 and 85 over the five classes; its state is the array
  \<^verbatim>\<open>label_counts\<close> and the generator. An exception is paired with the state the
  generator is left in.
\<close>

definition add_noise ::
  "('f, 'n) numerics \<Rightarrow> real \<Rightarrow> nat \<Rightarrow> 'f list \<times> nat \<Rightarrow> error \<times> nat + 'f list \<times> nat" where
  "add_noise env lap_scale item st =
     (case st of (lc, g) \<Rightarrow>
        (case laplace env lap_scale g of
           Inl e \<Rightarrow> Inl e
         | Inr (d, g') \<Rightarrow> Inr (lc[item := iadd env (lc ! item) d], g')))"

text \<open>
  The body of the inner loop (lines 75 to 88) for sample \<open>(i, j)\<close>. Its state is the
  array \<^verbatim>\<open>result\<close>, the array \<^verbatim>\<open>clean_votes\<close> (which exists only when
  \<^verbatim>\<open>return_clean_votes\<close> is set) and the generator. Line 78 copies the five counts
  into \<^verbatim>\<open>clean_votes\<close> and line 81 builds a new float32 array, so the additions of
  line 85 work on an array of their own; arrays are values here. The progress message of
  lines 72 and 73 goes to standard output and touches none of them; it is left out.
\<close>

type_synonym nm_state = "int list list \<times> int list list list option \<times> nat"

definition nm_body ::
  "('f::linorder, 'n) numerics \<Rightarrow> int ndarray3 \<Rightarrow> real \<Rightarrow> bool \<Rightarrow> nat \<Rightarrow> nat \<Rightarrow>
     nm_state \<Rightarrow> error \<times> nat + nm_state" where
  "nm_body env predictions lap_scale return_clean_votes i j st =
     (case st of (result, clean_votes, g) \<Rightarrow>
        (case label_counts predictions i j of
           Inl e \<Rightarrow> Inl (e, g)
         | Inr lc \<Rightarrow>
             (let clean_votes' =
                    (if return_clean_votes
                     then map_option (\<lambda>cv. set_column cv i j lc) clean_votes
                     else clean_votes)
              in case for_loop [0..<5] (add_noise env lap_scale) (map (float32 env) lc, g) of
                   Inl e \<Rightarrow> Inl e
                 | Inr (noisy, g') \<Rightarrow>
                     (case argmax noisy of
                        Inl e \<Rightarrow> Inl (e, g')
                      | Inr a \<Rightarrow> Inr (set2 result i j (int a + 1), clean_votes', g')))))"

text \<open>
  \<open>noisy_max env predictions lap_scale return_clean_votes g\<close> runs the function with the
  generator in state \<open>g\<close>. It returns what the call returns or raises, and the state the
  generator is left in.
\<close>

definition noisy_max ::
  "('f::linorder, 'n) numerics \<Rightarrow> int ndarray3 \<Rightarrow> real \<Rightarrow> bool \<Rightarrow> nat \<Rightarrow>
     (error + int32 ndarray2 \<times> int ndarray3 option) \<times> nat" where
  "noisy_max env predictions lap_scale return_clean_votes g =
     (case shape3 predictions of (t, n, s) \<Rightarrow>
        (let result = zeros2 n s;
             clean_votes = (if return_clean_votes then Some (zeros3 5 n s) else None)
         in case for_loop [0..<n]
                   (\<lambda>i. for_loop [0..<s]
                      (\<lambda>j. nm_body env predictions lap_scale return_clean_votes i j))
                   (result, clean_votes, g) of
              Inl (e, g') \<Rightarrow> (Inl e, g')
            | Inr (result', clean_votes', g') \<Rightarrow>
                (Inr (\<lparr>shape2 = (n, s), data2 = map (map as_int32) result'\<rparr>,
                      map_option (\<lambda>cv. \<lparr>shape3 = (5, n, s), data3 = cv\<rparr>) clean_votes'),
                 g')))"

section \<open>\<^verbatim>\<open>labels_from_probs\<close>\<close>

text \<open>
  \<^verbatim>\<open>np.argmax(probs, axis=last_axis)\<close>: the array is cut into rows of the length \<open>k\<close>
  of the last axis, one row per index of the leading axes, and each row gives its
  argmax. NumPy raises \<^verbatim>\<open>ValueError\<close> when \<open>k = 0\<close>, and reads a rank-0 array as one
  row of one element. The scores are compared by a linear order (finite values).
\<close>

fun collect :: "('x + 'a) list \<Rightarrow> 'x + 'a list" where
  "collect [] = Inr []"
| "collect (r # rs) =
     (case r of
        Inl e \<Rightarrow> Inl e
      | Inr v \<Rightarrow> (case collect rs of Inl e \<Rightarrow> Inl e | Inr vs \<Rightarrow> Inr (v # vs)))"

definition last_axis_row :: "'a ndarray \<Rightarrow> nat \<Rightarrow> 'a list" where
  "last_axis_row a r =
     (let k = (if shape a = [] then 1 else last (shape a))
      in slice (r * k) (r * k + k) (flat a))"

definition argmax_last_axis :: "'a::linorder ndarray \<Rightarrow> error + nat ndarray" where
  "argmax_last_axis a =
     (if shape a \<noteq> [] \<and> last (shape a) = 0 then Inl ValueError
      else case collect (map (\<lambda>r. argmax (last_axis_row a r))
                           [0..<prod_list (butlast (shape a))]) of
             Inl e \<Rightarrow> Inl e
           | Inr labels \<Rightarrow> Inr \<lparr>shape = butlast (shape a), flat = labels\<rparr>)"

definition labels_from_probs :: "'a::linorder ndarray \<Rightarrow> error + int32 ndarray" where
  "labels_from_probs probs =
     (case argmax_last_axis probs of
        Inl e \<Rightarrow> Inl e
      | Inr labels \<Rightarrow>
          Inr \<lparr>shape = shape labels, flat = map (\<lambda>a. as_int32 (int a)) (flat labels)\<rparr>)"

section \<open>What the specification calls the vote counts\<close>

text \<open>
  The count for class \<open>c\<close> of sample \<open>(n, s)\<close> is the number of teachers \<open>t\<close> with
  \<open>prediction[t,n,s] = c\<close>, for the classes 1 to 5; \<open>count_votes\<close> is the tensor of
  shape \<open>(5, N, S)\<close> of these counts.
\<close>

definition votes :: "int ndarray3 \<Rightarrow> nat \<Rightarrow> nat \<Rightarrow> int list" where
  "votes p n s = map (\<lambda>c. int (count_list (column p n s) (int c))) [1..<6]"

definition count_votes :: "int ndarray3 \<Rightarrow> int ndarray3" where
  "count_votes p =
     (case shape3 p of (t, n, s) \<Rightarrow>
        \<lparr>shape3 = (5, n, s),
         data3 = map (\<lambda>c. map (\<lambda>i. map (\<lambda>j. votes p i j ! c) [0..<s]) [0..<n]) [0..<5]\<rparr>)"

text \<open>
  The index an argmax must return: a position of a greatest element, every element
  before it strictly smaller.
\<close>

definition is_first_max :: "'a::linorder list \<Rightarrow> nat \<Rightarrow> bool" where
  "is_first_max xs a =
     (a < length xs \<and> list_all (\<lambda>x. x \<le> xs ! a) xs \<and> list_all (\<lambda>x. x < xs ! a) (take a xs))"

text \<open>The index an argmax returns, where it returns one.\<close>

definition argmax_ix :: "'a::linorder list \<Rightarrow> nat" where
  "argmax_ix xs = (case argmax xs of Inl e \<Rightarrow> 0 | Inr a \<Rightarrow> a)"

text \<open>
  The noisy vector of sample \<open>(n, s)\<close> when the generator has made \<open>g\<close> draws before
  the sample is reached: class \<open>c\<close> receives draw number \<open>g + c\<close>.
\<close>

definition noisy_votes ::
  "('f, 'n) numerics \<Rightarrow> int ndarray3 \<Rightarrow> real \<Rightarrow> nat \<Rightarrow> nat \<Rightarrow> nat \<Rightarrow> 'f list" where
  "noisy_votes env p lap_scale g n s =
     map (\<lambda>c. iadd env (float32 env (votes p n s ! c)) (variate env lap_scale (g + c))) [0..<5]"

text \<open>
  The labels the two aggregators store for sample \<open>(n, s)\<close>, and the condition under
  which \<^verbatim>\<open>np.bincount\<close> accepts the sample.
\<close>

definition amf_label :: "int ndarray3 \<Rightarrow> nat \<Rightarrow> nat \<Rightarrow> int" where
  "amf_label p n s = int (argmax_ix (map (\<lambda>c. sint (as_int32 c)) (votes p n s))) + 1"

definition nm_label ::
  "('f::linorder, 'n) numerics \<Rightarrow> int ndarray3 \<Rightarrow> real \<Rightarrow> nat \<Rightarrow> nat \<Rightarrow> nat \<Rightarrow> int" where
  "nm_label env p lap_scale g n s = int (argmax_ix (noisy_votes env p lap_scale g n s)) + 1"

definition bincount_ok :: "int ndarray3 \<Rightarrow> nat \<Rightarrow> nat \<Rightarrow> bool" where
  "bincount_ok p n s = (\<not> list_ex (\<lambda>v. v < 0) (column p n s))"

text \<open>
  A label tensor for \<open>N\<close> by \<open>S\<close> samples: the shape is \<open>(N, S)\<close>, the elements fill
  it, and each element, read as a signed 32-bit integer, is a class in 1..5.
\<close>

definition label_tensor :: "nat \<Rightarrow> nat \<Rightarrow> int32 ndarray2 \<Rightarrow> bool" where
  "label_tensor N S labels =
     (shape2 labels = (N, S) \<and> wf2 labels
      \<and> list_all (\<lambda>v. 1 \<le> sint v \<and> sint v \<le> 5) (concat (data2 labels)))"

section \<open>Concrete inputs\<close>

text \<open>
  The scenario of the specification: three teachers, one sample, labels 1, 2 and 1; and a
  tensor of nine teachers whose vote counts are 3, 3, 1, 1, 1.
\<close>

definition scenario :: "int ndarray3" where
  "scenario = \<lparr>shape3 = (3, 1, 1), data3 = [[[1]], [[2]], [[1]]]\<rparr>"

definition tied :: "int ndarray3" where
  "tied = \<lparr>shape3 = (9, 1, 1),
            data3 = [[[1]], [[1]], [[1]], [[2]], [[2]], [[2]], [[3]], [[4]], [[5]]]\<rparr>"






definition unanimous :: "int ndarray3" where
  "unanimous = \<lparr>shape3 = (2 ^ 31, 1, 1), data3 = replicate (2 ^ 31) [[1]]\<rparr>"

text \<open>
  Numerics for the concrete runs, with exact arithmetic in place of float32: a stream whose
  first two variates are \<open>-3/2\<close> and \<open>1/4\<close>, a stream that favours the third class, and
  a stream of zeros.
\<close>

definition flipping :: "(real, real) numerics" where
  "flipping = \<lparr>float32 = real_of_int, iadd = (+),
     variate = (\<lambda>b k. if k = 0 then - 3 / 2 else if k = 1 then 1 / 4 else 0)\<rparr>"

definition third_class :: "(int, int) numerics" where
  "third_class = \<lparr>float32 = (\<lambda>c. c), iadd = (+), variate = (\<lambda>b k. if k = 2 then 1 else 0)\<rparr>"


text \<open>Score arrays: two rows of three scores, and \<open>2^31 + 1\<close> scores with the maximum last.\<close>

definition two_rows :: "int ndarray" where
  "two_rows = \<lparr>shape = [2, 3], flat = [1, 5, 5, 4, 2, 0]\<rparr>"

definition maximum_last :: "int ndarray" where
  "maximum_last = \<lparr>shape = [2 ^ 31 + 1], flat = replicate (2 ^ 31) 0 @ [1]\<rparr>"

section \<open>Evaluation on concrete inputs\<close>

lemmas eval_defs = aggregation_most_frequent_def noisy_max_def nm_body_def amf_body_def
  label_counts_def bincount_def column_def slice_def argmax_def as_int32_def set2_def
  set_column_def zeros2_def zeros3_def add_noise_def laplace_def votes_def is_first_max_def
  labels_from_probs_def argmax_last_axis_def last_axis_row_def
  argmax_ix_def noisy_votes_def count_votes_def amf_label_def nm_label_def bincount_ok_def


section \<open>Loops and array updates\<close>


lemma for_loop_fold:
  "(\<And>x s. x \<in> set xs \<Longrightarrow> body x s = Inr (f x s)) \<Longrightarrow> for_loop xs body s = Inr (fold f xs s)"
  by (induction xs arbitrary: s) auto

lemma for_loop_fails:
  assumes "\<And>x s. x \<in> set xs \<Longrightarrow> bad x \<Longrightarrow> isl (body x s)"
    and "\<exists>x\<in>set xs. bad x"
  shows "isl (for_loop xs body s)"
  using assms
proof (induction xs arbitrary: s)
  case Nil
  then show ?case by simp
next
  case (Cons x xs)
  show ?case
  proof (cases "body x s")
    case (Inl e)
    then show ?thesis by simp
  next
    case (Inr s')
    with Cons.prems(1)[of x s] have "\<not> bad x" by auto
    with Cons.prems(2) have "\<exists>y\<in>set xs. bad y" by auto
    with Cons.IH[of s'] Cons.prems(1) Inr show ?thesis by auto
  qed
qed


lemma fill_list:
  "k \<le> length r \<Longrightarrow> fold (\<lambda>i r. r[i := R i]) [0..<k] r = map R [0..<k] @ drop k r"
proof (induction k)
  case 0
  then show ?case by simp
next
  case (Suc k)
  then have "k < length r" by simp
  then have d: "drop k r = r ! k # drop (Suc k) r"
    by (simp add: Cons_nth_drop_Suc)
  from Suc show ?case
    by (simp add: d list_update_append)
qed

lemma fold_set2:
  "i < length r \<Longrightarrow>
   fold (\<lambda>j r. set2 r i j (V j)) js r = r[i := fold (\<lambda>j row. row[j := V j]) js (r ! i)]"
  by (induction js arbitrary: r) (simp_all add: set2_def)

lemma fill_row:
  "i < length r \<Longrightarrow> length (r ! i) = s \<Longrightarrow>
   fold (\<lambda>j r. set2 r i j (V j)) [0..<s] r = r[i := map V [0..<s]]"
  by (simp add: fold_set2 fill_list)

lemma fill_rows:
  "list_all (\<lambda>row. length row = s) r \<Longrightarrow> k \<le> length r \<Longrightarrow>
   fold (\<lambda>i r. fold (\<lambda>j r. set2 r i j (V i j)) [0..<s] r) [0..<k] r
     = map (\<lambda>i. map (V i) [0..<s]) [0..<k] @ drop k r"
proof (induction k)
  case 0
  then show ?case by simp
next
  case (Suc k)
  then have k: "k < length r" by simp
  then have d: "drop k r = r ! k # drop (Suc k) r"
    by (simp add: Cons_nth_drop_Suc)
  from Suc.prems k have len: "length (r ! k) = s"
    by (simp add: list_all_length)
  let ?m = "map (\<lambda>i. map (V i) [0..<s]) [0..<k] @ drop k r"
  have "fold (\<lambda>j r. set2 r k j (V k j)) [0..<s] ?m = ?m[k := map (V k) [0..<s]]"
    using k len by (intro fill_row) (simp_all add: nth_append)
  with Suc show ?case
    by (simp add: d list_update_append)
qed

lemma fold_triple:
  "fold (\<lambda>x (r, cv, g). (A x g r, B x cv, g + d)) [0..<k] (r, cv, g)
     = (fold (\<lambda>x. A x (g + d * x)) [0..<k] r, fold B [0..<k] cv, g + d * k)"
  by (induction k) (simp_all add: algebra_simps)

lemma fold_planes:
  "fold (\<lambda>x cv. map (\<lambda>c. h x c (cv ! c)) [0..<length cv]) xs cv
     = map (\<lambda>c. fold (\<lambda>x. h x c) xs (cv ! c)) [0..<length cv]"
proof (induction xs arbitrary: cv)
  case Nil
  then show ?case by (simp add: map_nth)
next
  case (Cons x xs)
  then show ?case by (simp cong: map_cong)
qed

lemma fold_map_option:
  "fold (\<lambda>x. map_option (h x)) xs cvo = map_option (fold h xs) cvo"
  by (induction xs arbitrary: cvo) (simp_all add: option.map_comp comp_def option.map_id)


lemma bincount_slice:
  "\<not> list_ex (\<lambda>v. v < 0) x \<Longrightarrow>
   \<exists>bins. bincount x 6 = Inr bins \<and>
     slice 1 6 bins = map (\<lambda>c. int (count_list x (int c))) [1..<6]"
  by (simp add: bincount_def slice_def take_map drop_map min_def)

lemma label_counts_ok:
  "bincount_ok p i j \<Longrightarrow> label_counts p i j = Inr (votes p i j)"
  using bincount_slice [of "column p i j"] by (auto simp: label_counts_def votes_def bincount_ok_def)

lemma label_counts_err:
  "\<not> bincount_ok p i j \<Longrightarrow> label_counts p i j = Inl ValueError"
  by (simp add: label_counts_def bincount_def bincount_ok_def)

lemma length_votes: "length (votes p i j) = 5"
  by (simp add: votes_def)

lemma argmax_loop_first_max:
  assumes "length pre = i" "mi < i" "pre ! mi = mp"
    "list_all (\<lambda>x. x \<le> mp) pre" "list_all (\<lambda>x. x < mp) (take mi pre)"
  shows "is_first_max (pre @ xs) (argmax_loop xs i mp mi)"
  using assms
proof (induction xs arbitrary: pre i mp mi)
  case Nil
  then show ?case by (simp add: is_first_max_def)
next
  case (Cons x xs)
  show ?case
  proof (cases "mp < x")
    case True
    have "is_first_max ((pre @ [x]) @ xs) (argmax_loop xs (Suc i) x i)"
    proof (rule Cons.IH)
      show "list_all (\<lambda>y. y \<le> x) (pre @ [x])"
        using Cons.prems(4) True by (auto simp: list_all_iff)
      show "list_all (\<lambda>y. y < x) (take i (pre @ [x]))"
        using Cons.prems(1,4) True by (auto simp: list_all_iff)
    qed (use Cons.prems in \<open>simp_all add: nth_append\<close>)
    with True show ?thesis by simp
  next
    case False
    have "is_first_max ((pre @ [x]) @ xs) (argmax_loop xs (Suc i) mp mi)"
    proof (rule Cons.IH)
      show "list_all (\<lambda>y. y \<le> mp) (pre @ [x])"
        using Cons.prems(4) False by (auto simp: list_all_iff)
      show "list_all (\<lambda>y. y < mp) (take mi (pre @ [x]))"
        using Cons.prems(1,2,5) by simp
    qed (use Cons.prems in \<open>simp_all add: nth_append\<close>)
    with False show ?thesis by simp
  qed
qed

lemma argmax_first_max:
  "xs \<noteq> [] \<Longrightarrow> argmax xs = Inr (argmax_ix xs) \<and> is_first_max xs (argmax_ix xs)"
proof (cases xs)
  case Nil
  then show "xs \<noteq> [] \<Longrightarrow> ?thesis" by simp
next
  case (Cons x rest)
  have "is_first_max ([x] @ rest) (argmax_loop rest 1 x 0)"
    by (rule argmax_loop_first_max) simp_all
  with Cons show ?thesis by (simp add: argmax_def argmax_ix_def)
qed

lemma is_first_max_unique:
  assumes "is_first_max xs a" "is_first_max xs b"
  shows "a = b"
proof (rule ccontr)
  assume "a \<noteq> b"
  then consider "a < b" | "b < a" by linarith
  then show False
  proof cases
    case 1
    with assms have "xs ! a < xs ! b" "xs ! b \<le> xs ! a"
      by (auto simp: is_first_max_def list_all_length)
    then show False by simp
  next
    case 2
    with assms have "xs ! b < xs ! a" "xs ! a \<le> xs ! b"
      by (auto simp: is_first_max_def list_all_length)
    then show False by simp
  qed
qed

lemma add_noise_ok:
  assumes "0 \<le> lap_scale" "length lc = 5"
  shows "for_loop [0..<5] (add_noise env lap_scale) (lc, g)
     = Inr (map (\<lambda>c. iadd env (lc ! c) (variate env lap_scale (g + c))) [0..<5], g + 5)"
proof -
  from assms(2) obtain a b c d e where lc: "lc = [a, b, c, d, e]"
    by (auto simp: length_Suc_conv eval_nat_numeral)
  have u: "[0..<5] = [0, 1, 2, 3, 4]" by (simp add: upt_rec)
  show ?thesis
    using assms(1) unfolding lc u
    by (simp add: add_noise_def laplace_def eval_nat_numeral)
qed

lemma add_noise_err:
  "lap_scale < 0 \<Longrightarrow>
   for_loop [0..<5] (add_noise env lap_scale) (lc, g) = Inl (ValueError, g)"
  by (simp add: upt_rec add_noise_def laplace_def)

lemma amf_body_ok:
  "bincount_ok p i j \<Longrightarrow> amf_body p i j r = Inr (set2 r i j (amf_label p i j))"
  using argmax_first_max [of "map (\<lambda>c. sint (as_int32 c)) (votes p i j)"]
  by (simp add: amf_body_def label_counts_ok amf_label_def votes_def)


lemma nm_body_ok:
  assumes "bincount_ok p i j" "0 \<le> b"
  shows "nm_body env p b rcv i j (r, cv, g)
     = Inr (set2 r i j (nm_label env p b g i j),
            (if rcv then map_option (\<lambda>cv. set_column cv i j (votes p i j)) cv else cv),
            g + 5)"
proof -
  have n: "for_loop [0..<5] (add_noise env b) (map (float32 env) (votes p i j), g)
      = Inr (noisy_votes env p b g i j, g + 5)"
    using add_noise_ok [OF assms(2), of "map (float32 env) (votes p i j)" env g]
    by (simp add: length_votes noisy_votes_def cong: map_cong)
  have a: "argmax (noisy_votes env p b g i j) = Inr (argmax_ix (noisy_votes env p b g i j))"
    using argmax_first_max [of "noisy_votes env p b g i j"]
    by (simp add: noisy_votes_def)
  show ?thesis
    by (simp add: nm_body_def label_counts_ok [OF assms(1)] n a nm_label_def Let_def)
qed

lemma nm_body_err:
  "\<not> (bincount_ok p i j \<and> 0 \<le> b) \<Longrightarrow> nm_body env p b rcv i j (r, cv, g) = Inl (ValueError, g)"
  by (cases "bincount_ok p i j")
    (simp_all add: nm_body_def label_counts_err label_counts_ok add_noise_err Let_def)

lemma zeros2_rows: "list_all (\<lambda>row. length row = s) (zeros2 n s)"
  by (simp add: zeros2_def list_all_iff)

lemma length_zeros2: "length (zeros2 n s) = n"
  by (simp add: zeros2_def)

lemma amf_loops_ok:
  assumes "\<And>i j. i < n \<Longrightarrow> j < s \<Longrightarrow> bincount_ok p i j"
  shows "for_loop [0..<n] (\<lambda>i. for_loop [0..<s] (\<lambda>j. amf_body p i j)) (zeros2 n s)
     = Inr (map (\<lambda>i. map (\<lambda>j. amf_label p i j) [0..<s]) [0..<n])"
proof -
  have inner: "for_loop [0..<s] (\<lambda>j. amf_body p i j) r
      = Inr (fold (\<lambda>j r. set2 r i j (amf_label p i j)) [0..<s] r)" if "i \<in> set [0..<n]" for i r
    using that assms by (intro for_loop_fold) (simp add: amf_body_ok)
  have "for_loop [0..<n] (\<lambda>i. for_loop [0..<s] (\<lambda>j. amf_body p i j)) (zeros2 n s)
      = Inr (fold (\<lambda>i r. fold (\<lambda>j r. set2 r i j (amf_label p i j)) [0..<s] r) [0..<n] (zeros2 n s))"
    by (rule for_loop_fold) (rule inner)
  also have "fold (\<lambda>i r. fold (\<lambda>j r. set2 r i j (amf_label p i j)) [0..<s] r) [0..<n] (zeros2 n s)
      = map (\<lambda>i. map (\<lambda>j. amf_label p i j) [0..<s]) [0..<n]"
    using fill_rows [OF zeros2_rows, of n n s "amf_label p"] by (simp add: length_zeros2)
  finally show ?thesis .
qed

lemma amf_closed:
  assumes "shape3 p = (t, n, s)" "\<And>i j. i < n \<Longrightarrow> j < s \<Longrightarrow> bincount_ok p i j"
  shows "aggregation_most_frequent p
     = Inr \<lparr>shape2 = (n, s),
            data2 = map (\<lambda>i. map (\<lambda>j. as_int32 (amf_label p i j)) [0..<s]) [0..<n]\<rparr>"
  using amf_loops_ok [of n s p] assms
  by (simp add: aggregation_most_frequent_def comp_def)



lemma fold_skip: "fold (\<lambda>x s. s) xs = (\<lambda>s. s)"
  by (induction xs) (simp_all add: fun_eq_iff)

lemma zeros3_planes: "length (zeros3 c n s) = c" "k < c \<Longrightarrow> zeros3 c n s ! k = zeros2 n s"
  by (simp_all add: zeros3_def)

lemma fill_planes:
  assumes "length z = m" "\<And>c. c < m \<Longrightarrow> z ! c = zeros2 n s"
  shows "fold (\<lambda>i cv. fold (\<lambda>j cv. set_column cv i j (W i j)) [0..<s] cv) [0..<n] z
     = map (\<lambda>c. map (\<lambda>i. map (\<lambda>j. W i j ! c) [0..<s]) [0..<n]) [0..<m]"
proof -
  have inner: "(\<lambda>cv. fold (\<lambda>j cv. set_column cv i j (W i j)) [0..<s] cv)
      = (\<lambda>cv. map (\<lambda>c. fold (\<lambda>j r. set2 r i j (W i j ! c)) [0..<s] (cv ! c)) [0..<length cv])" for i
    using fold_planes [where h = "\<lambda>j c r. set2 r i j (W i j ! c)" and xs = "[0..<s]"]
    by (simp add: set_column_def)
  have "fold (\<lambda>i cv. fold (\<lambda>j cv. set_column cv i j (W i j)) [0..<s] cv) [0..<n] z
      = map (\<lambda>c. fold (\<lambda>i r. fold (\<lambda>j r. set2 r i j (W i j ! c)) [0..<s] r) [0..<n] (z ! c))
          [0..<length z]"
    using fold_planes [where h = "\<lambda>i c r. fold (\<lambda>j r. set2 r i j (W i j ! c)) [0..<s] r"
        and xs = "[0..<n]" and cv = z]
    by (simp add: inner)
  also have "\<dots> = map (\<lambda>c. map (\<lambda>i. map (\<lambda>j. W i j ! c) [0..<s]) [0..<n]) [0..<m]"
    using fill_rows [OF zeros2_rows, of n n s]
    by (simp add: assms length_zeros2 cong: map_cong)
  finally show ?thesis .
qed

lemma nm_loops_ok:
  assumes "\<And>i j. i < n \<Longrightarrow> j < s \<Longrightarrow> bincount_ok p i j \<and> 0 \<le> b"
  shows "for_loop [0..<n] (\<lambda>i. for_loop [0..<s] (\<lambda>j. nm_body env p b rcv i j))
       (zeros2 n s, if rcv then Some (zeros3 5 n s) else None, g)
     = Inr (map (\<lambda>i. map (\<lambda>j. nm_label env p b (g + 5 * (i * s + j)) i j) [0..<s]) [0..<n],
            if rcv
            then Some (map (\<lambda>c. map (\<lambda>i. map (\<lambda>j. votes p i j ! c) [0..<s]) [0..<n]) [0..<5])
            else None,
            g + 5 * n * s)"
proof -
  let ?A = "\<lambda>i j g r. set2 r i j (nm_label env p b g i j)"
  let ?B = "\<lambda>i j cv. if rcv then map_option (\<lambda>cv. set_column cv i j (votes p i j)) cv else cv"
  let ?A' = "\<lambda>i g r. fold (\<lambda>j. ?A i j (g + 5 * j)) [0..<s] r"
  let ?B' = "\<lambda>i cv. fold (?B i) [0..<s] cv"
  have body: "nm_body env p b rcv i j st = Inr ((\<lambda>(r, cv, g). (?A i j g r, ?B i j cv, g + 5)) st)"
    if "i < n" "j < s" for i j st
    using assms [OF that] by (cases st) (simp add: nm_body_ok)
  have inner: "for_loop [0..<s] (\<lambda>j. nm_body env p b rcv i j) st
      = Inr ((\<lambda>(r, cv, g). (?A' i g r, ?B' i cv, g + 5 * s)) st)" if "i \<in> set [0..<n]" for i st
  proof -
    have "for_loop [0..<s] (\<lambda>j. nm_body env p b rcv i j) st
        = Inr (fold (\<lambda>j (r, cv, g). (?A i j g r, ?B i j cv, g + 5)) [0..<s] st)"
      using that by (intro for_loop_fold) (simp add: body)
    then show ?thesis
      by (cases st) (simp add: fold_triple)
  qed
  have "for_loop [0..<n] (\<lambda>i. for_loop [0..<s] (\<lambda>j. nm_body env p b rcv i j))
       (zeros2 n s, if rcv then Some (zeros3 5 n s) else None, g)
     = Inr (fold (\<lambda>i (r, cv, g). (?A' i g r, ?B' i cv, g + 5 * s)) [0..<n]
         (zeros2 n s, if rcv then Some (zeros3 5 n s) else None, g))"
    by (rule for_loop_fold) (rule inner)
  also have "fold (\<lambda>i (r, cv, g). (?A' i g r, ?B' i cv, g + 5 * s)) [0..<n]
         (zeros2 n s, if rcv then Some (zeros3 5 n s) else None, g)
     = (fold (\<lambda>i. ?A' i (g + 5 * s * i)) [0..<n] (zeros2 n s),
        fold ?B' [0..<n] (if rcv then Some (zeros3 5 n s) else None),
        g + 5 * s * n)"
    by (rule fold_triple)
  also have "fold (\<lambda>i. ?A' i (g + 5 * s * i)) [0..<n] (zeros2 n s)
     = map (\<lambda>i. map (\<lambda>j. nm_label env p b (g + 5 * (i * s + j)) i j) [0..<s]) [0..<n]"
    using fill_rows [OF zeros2_rows, of n n s "\<lambda>i j. nm_label env p b (g + 5 * s * i + 5 * j) i j"]
    by (simp add: length_zeros2 algebra_simps)
  also have "fold ?B' [0..<n] (if rcv then Some (zeros3 5 n s) else None)
     = (if rcv
        then Some (map (\<lambda>c. map (\<lambda>i. map (\<lambda>j. votes p i j ! c) [0..<s]) [0..<n]) [0..<5])
        else None)"
  proof (cases rcv)
    case True
    have "fold ?B' [0..<n] (Some (zeros3 5 n s))
        = Some (fold (\<lambda>i cv. fold (\<lambda>j cv. set_column cv i j (votes p i j)) [0..<s] cv) [0..<n]
            (zeros3 5 n s))"
      using True by (simp add: fold_map_option)
    then show ?thesis
      using True fill_planes [of "zeros3 5 n s" 5 n s "votes p"]
      by (simp add: zeros3_planes)
  next
    case False
    then show ?thesis by (simp add: fold_skip)
  qed
  finally show ?thesis by (simp add: mult.commute)
qed


lemma nm_closed:
  assumes "shape3 p = (t, n, s)" "\<And>i j. i < n \<Longrightarrow> j < s \<Longrightarrow> bincount_ok p i j \<and> 0 \<le> b"
  shows "noisy_max env p b rcv g
     = (Inr (\<lparr>shape2 = (n, s),
              data2 = map (\<lambda>i. map (\<lambda>j. as_int32 (nm_label env p b (g + 5 * (i * s + j)) i j))
                        [0..<s]) [0..<n]\<rparr>,
             if rcv then Some (count_votes p) else None),
        g + 5 * n * s)"
  using nm_loops_ok [of n s p b env rcv g] assms
  by (simp add: noisy_max_def count_votes_def comp_def)

lemma nm_fails:
  assumes "shape3 p = (t, n, s)" "i < n" "j < s" "\<not> (bincount_ok p i j \<and> 0 \<le> b)"
  shows "fst (noisy_max env p b rcv g) = Inl ValueError"
proof -
  let ?bad = "\<lambda>i j. \<not> (bincount_ok p i j \<and> 0 \<le> b)"
  have inner: "isl (for_loop [0..<s] (\<lambda>j. nm_body env p b rcv i' j) st)"
    if "\<exists>j. j < s \<and> ?bad i' j" for i' st
  proof (rule for_loop_fails [where bad = "?bad i'"])
    show "\<exists>j\<in>set [0..<s]. ?bad i' j" using that by auto
    show "isl (nm_body env p b rcv i' x s')" if "?bad i' x" for x s'
      using that nm_body_err [of p i' x b env rcv] by (cases s') auto
  qed
  have "isl (for_loop [0..<n] (\<lambda>i. for_loop [0..<s] (\<lambda>j. nm_body env p b rcv i j))
       (zeros2 n s, if rcv then Some (zeros3 5 n s) else None, g))"
  proof (rule for_loop_fails [where bad = "\<lambda>i. \<exists>j. j < s \<and> ?bad i j"])
    show "\<exists>i\<in>set [0..<n]. \<exists>j. j < s \<and> ?bad i j"
      using assms(2-4) by auto
  qed (rule inner)
  then obtain e g' where "for_loop [0..<n] (\<lambda>i. for_loop [0..<s] (\<lambda>j. nm_body env p b rcv i j))
       (zeros2 n s, if rcv then Some (zeros3 5 n s) else None, g) = Inl (e, g')"
    by (auto simp: isl_def)
  then show ?thesis
    using assms(1) by (cases e) (simp add: noisy_max_def)
qed


lemma sint_as_int32: "- (2 ^ 31) \<le> v \<Longrightarrow> v < 2 ^ 31 \<Longrightarrow> sint (as_int32 v) = v"
  by (simp add: as_int32_def sint_sbintrunc' signed_take_bit_int_eq_self)

lemma argmax_ix_less: "xs \<noteq> [] \<Longrightarrow> argmax_ix xs < length xs"
  using argmax_first_max [of xs] by (simp add: is_first_max_def)

lemma amf_label_range: "1 \<le> amf_label p i j \<and> amf_label p i j \<le> 5"
  using argmax_ix_less [of "map (\<lambda>c. sint (as_int32 c)) (votes p i j)"]
  by (simp add: amf_label_def votes_def)

lemma nm_label_range: "1 \<le> nm_label env p b g i j \<and> nm_label env p b g i j \<le> 5"
  using argmax_ix_less [of "noisy_votes env p b g i j"]
  by (simp add: nm_label_def noisy_votes_def)

lemma sint_label:
  "1 \<le> v \<and> v \<le> 5 \<Longrightarrow> sint (as_int32 v) = v"
  by (rule sint_as_int32) simp_all

lemma wf3_plane:
  assumes "wf3 p" "shape3 p = (t, n, s)" "plane \<in> set (data3 p)"
  shows "length plane = n" "\<And>row. row \<in> set plane \<Longrightarrow> length row = s"
  using assms by (auto simp: wf3_def list_all_iff)

lemma length_column: "wf3 p \<Longrightarrow> shape3 p = (t, n, s) \<Longrightarrow> length (column p i j) = t"
  by (simp add: column_def wf3_def)

lemma column_subset:
  assumes "wf3 p" "shape3 p = (t, n, s)" "i < n" "j < s"
  shows "set (column p i j) \<subseteq> set (entries3 p)"
proof
  fix v assume "v \<in> set (column p i j)"
  then obtain plane where pl: "plane \<in> set (data3 p)" and v: "v = plane ! i ! j"
    by (auto simp: column_def)
  from wf3_plane [OF assms(1,2) pl] assms(3) have row: "plane ! i \<in> set plane"
    by simp
  with wf3_plane(2) [OF assms(1,2) pl] assms(4) have "plane ! i ! j \<in> set (plane ! i)"
    by simp
  with pl row v show "v \<in> set (entries3 p)"
    by (auto simp: entries3_def)
qed


lemma bincount_ok_nonneg:
  assumes "wf3 p" "shape3 p = (t, n, s)" "list_all (\<lambda>v. 0 \<le> v) (entries3 p)" "i < n" "j < s"
  shows "bincount_ok p i j"
  using column_subset [OF assms(1,2,4,5)] assms(3)
  by (fastforce simp: bincount_ok_def list_all_iff list_ex_iff)


lemma sum_votes:
  "list_all (\<lambda>v. 0 \<le> v) x \<Longrightarrow>
   (\<Sum>c\<leftarrow>[1..<6]. int (count_list x (int c)))
     = int (length x) - int (length (filter (\<lambda>v. v = 0 \<or> 5 < v) x))"
proof (induction x)
  case Nil
  then show ?case by simp
next
  case (Cons a x)
  have u: "[1..<6] = [1, 2, 3, 4, 5]" by (simp add: upt_rec)
  from Cons.prems have "a = 0 \<or> a = 1 \<or> a = 2 \<or> a = 3 \<or> a = 4 \<or> a = 5 \<or> 5 < a"
    by auto
  with Cons show ?case
    unfolding u by auto
qed

lemma list_all_weaken: "list_all P xs \<Longrightarrow> (\<And>x. P x \<Longrightarrow> Q x) \<Longrightarrow> list_all Q xs"
  by (auto simp: list_all_iff)

lemma nm_label_first_max:
  "\<exists>a. is_first_max (noisy_votes env p b g n s) a
     \<and> sint (as_int32 (nm_label env p b g n s)) = int a + 1"
proof -
  have "noisy_votes env p b g n s \<noteq> []" by (simp add: noisy_votes_def)
  then have "is_first_max (noisy_votes env p b g n s) (argmax_ix (noisy_votes env p b g n s))"
    by (simp add: argmax_first_max)
  moreover have "sint (as_int32 (nm_label env p b g n s)) = nm_label env p b g n s"
    by (rule sint_label) (rule nm_label_range)
  ultimately show ?thesis
    by (auto simp: nm_label_def)
qed

lemma map_sint_as_int32:
  "list_all (\<lambda>v. - (2 ^ 31) \<le> v \<and> v < 2 ^ 31) xs \<Longrightarrow> map (\<lambda>c. sint (as_int32 c)) xs = xs"
  by (induction xs) (simp_all add: sint_as_int32)

lemma votes_in_int32:
  assumes "length (column p i j) < 2 ^ 31"
  shows "map (\<lambda>c. sint (as_int32 c)) (votes p i j) = votes p i j"
proof (rule map_sint_as_int32)
  have "- (2 ^ 31) \<le> v \<and> v < 2 ^ 31" if "v \<in> set (votes p i j)" for v
  proof -
    from that obtain c where "v = int (count_list (column p i j) (int c))"
      by (auto simp: votes_def)
    moreover have "count_list (column p i j) (int c) \<le> length (column p i j)"
      by (rule count_le_length)
    ultimately show ?thesis using assms by simp
  qed
  then show "list_all (\<lambda>v. - (2 ^ 31) \<le> v \<and> v < 2 ^ 31) (votes p i j)"
    by (simp add: list_all_iff)
qed

lemma amf_label_first_max:
  assumes "length (column p n s) < 2 ^ 31"
  shows "\<exists>a. is_first_max (votes p n s) a \<and> sint (as_int32 (amf_label p n s)) = int a + 1"
proof -
  have "votes p n s \<noteq> []" by (simp add: votes_def)
  then have "is_first_max (votes p n s) (argmax_ix (votes p n s))"
    by (simp add: argmax_first_max)
  moreover have "sint (as_int32 (amf_label p n s)) = amf_label p n s"
    by (rule sint_label) (rule amf_label_range)
  ultimately show ?thesis
    by (auto simp: amf_label_def votes_in_int32 [OF assms])
qed

lemma amf_spec:
  assumes "wf3 p" and "shape3 p = (T, N, S)"
    and "list_all (\<lambda>v. 0 \<le> v \<and> v \<le> 5) (entries3 p)"
    and "T < 2 ^ 31"
  shows "\<exists>labels.
      aggregation_most_frequent p = Inr labels
    \<and> shape2 labels = (N, S)
    \<and> (\<forall>n<N. \<forall>s<S. \<exists>a.
          is_first_max (votes p n s) a \<and> sint (data2 labels ! n ! s) = int a + 1)"
proof -
  have nonneg: "list_all (\<lambda>v. 0 \<le> v) (entries3 p)"
    using assms(3) by (rule list_all_weaken) simp
  have "aggregation_most_frequent p
      = Inr \<lparr>shape2 = (N, S),
             data2 = map (\<lambda>i. map (\<lambda>j. as_int32 (amf_label p i j)) [0..<S]) [0..<N]\<rparr>"
    by (rule amf_closed [OF assms(2)]) (rule bincount_ok_nonneg [OF assms(1,2) nonneg])
  moreover have "length (column p n s) < 2 ^ 31" for n s
    using length_column [OF assms(1,2)] assms(4) by simp
  ultimately show ?thesis
    by (simp add: amf_label_first_max)
qed

lemma count_list_replicate: "count_list (replicate n x) y = (if x = y then n else 0)"
  by (induction n) auto

lemma votes_unanimous: "votes unanimous 0 0 = [2 ^ 31, 0, 0, 0, 0]"
  by (simp add: votes_def column_def unanimous_def count_list_replicate upt_rec comp_def)

lemma bincount_ok_unanimous: "bincount_ok unanimous 0 0"
  by (simp add: bincount_ok_def column_def unanimous_def list_ex_iff comp_def)

lemma shape_unanimous: "shape3 unanimous = (2 ^ 31, 1, 1)"
  by (simp add: unanimous_def)

lemma scenario_eval:
  "votes scenario 0 0 = [2, 1, 0, 0, 0]
   \<and> aggregation_most_frequent scenario = Inr \<lparr>shape2 = (1, 1), data2 = [[1]]\<rparr>
   \<and> votes tied 0 0 = [3, 3, 1, 1, 1]
   \<and> aggregation_most_frequent tied = Inr \<lparr>shape2 = (1, 1), data2 = [[1]]\<rparr>"
  by (simp add: scenario_def tied_def eval_defs upt_rec)

lemma count_votes_nth:
  assumes "shape3 p = (T, N, S)" "c < 5" "n < N" "s < S"
  shows "data3 (count_votes p) ! c ! n ! s = votes p n s ! c"
  using assms by (simp add: count_votes_def)

lemma count_votes_column:
  assumes "shape3 p = (T, N, S)" "n < N" "s < S"
  shows "map (\<lambda>c. data3 (count_votes p) ! c ! n ! s) [0..<5] = votes p n s"
proof -
  have "map (\<lambda>c. data3 (count_votes p) ! c ! n ! s) [0..<5] = map (\<lambda>c. votes p n s ! c) [0..<5]"
    using assms by (simp add: count_votes_nth [OF assms(1)] cong: map_cong)
  also have "\<dots> = votes p n s"
    using map_nth [of "votes p n s"] by (simp add: length_votes)
  finally show ?thesis .
qed




lemma labels_ok:
  assumes "\<And>i j. 1 \<le> L i j \<and> L i j \<le> 5"
  shows "label_tensor N S \<lparr>shape2 = (N, S), data2 = map (\<lambda>i. map (\<lambda>j. as_int32 (L i j)) [0..<S]) [0..<N]\<rparr>"
  using assms by (auto simp: label_tensor_def wf2_def list_all_iff sint_label)

lemma nm_success:
  assumes "shape3 p = (T, N, S)" "noisy_max env p b rcv g = (Inr (labels, cv), g')"
  shows "labels = \<lparr>shape2 = (N, S),
            data2 = map (\<lambda>i. map (\<lambda>j. as_int32 (nm_label env p b (g + 5 * (i * S + j)) i j))
                      [0..<S]) [0..<N]\<rparr>"
proof -
  have "bincount_ok p i j \<and> 0 \<le> b" if "i < N" "j < S" for i j
    using nm_fails [OF assms(1) that, of b env rcv g] assms(2) by auto
  with nm_closed [OF assms(1), of b env rcv g] assms(2) show ?thesis by simp
qed


lemma collect_map:
  "(\<And>x. x \<in> set xs \<Longrightarrow> f x = Inr (h x)) \<Longrightarrow> collect (map f xs) = Inr (map h xs)"
  by (induction xs) simp_all

lemma prod_list_butlast:
  "xs \<noteq> [] \<Longrightarrow> prod_list xs = prod_list (butlast xs) * (last xs :: nat)"
  using prod_list.append [of "butlast xs" "[last xs]"] by simp

lemma length_last_axis_row:
  assumes "wf_nd a" "shape a \<noteq> []" "r < prod_list (butlast (shape a))"
  shows "length (last_axis_row a r) = last (shape a)"
proof -
  let ?k = "last (shape a)"
  have "Suc r * ?k \<le> prod_list (butlast (shape a)) * ?k"
    using assms(3) by (intro mult_le_mono1) simp
  then have "r * ?k + ?k \<le> length (flat a)"
    using assms(1,2) by (simp add: wf_nd_def prod_list_butlast)
  then show ?thesis
    using assms(2) by (simp add: last_axis_row_def slice_def Let_def)
qed

lemma labels_from_probs_closed:
  assumes "wf_nd a" "shape a \<noteq> []" "0 < last (shape a)"
  shows "labels_from_probs a
     = Inr \<lparr>shape = butlast (shape a),
            flat = map (\<lambda>r. as_int32 (int (argmax_ix (last_axis_row a r))))
                     [0..<prod_list (butlast (shape a))]\<rparr>"
proof -
  have "argmax (last_axis_row a r) = Inr (argmax_ix (last_axis_row a r))"
    if "r \<in> set [0..<prod_list (butlast (shape a))]" for r
  proof -
    from that assms have "length (last_axis_row a r) \<noteq> 0"
      by (simp add: length_last_axis_row)
    then show ?thesis
      using argmax_first_max [of "last_axis_row a r"] by simp
  qed
  then have "collect (map (\<lambda>r. argmax (last_axis_row a r)) [0..<prod_list (butlast (shape a))])
      = Inr (map (\<lambda>r. argmax_ix (last_axis_row a r)) [0..<prod_list (butlast (shape a))])"
    by (rule collect_map)
  then show ?thesis
    using assms(3) by (simp add: labels_from_probs_def argmax_last_axis_def comp_def)
qed

lemma first_max_last: "is_first_max (replicate n (0::int) @ [1]) n"
  by (auto simp: is_first_max_def list_all_iff nth_append)

lemma argmax_ix_last: "argmax_ix (replicate n (0::int) @ [1]) = n"
  using argmax_first_max [of "replicate n (0::int) @ [1]"] first_max_last [of n]
  by (auto intro: is_first_max_unique)

lemma row_maximum_last: "last_axis_row maximum_last 0 = replicate (2 ^ 31) 0 @ [1]"
  by (simp add: last_axis_row_def maximum_last_def slice_def)




section \<open>The claims\<close>

text \<open>
  C1. For every prediction tensor of shape \<open>(T, N, S)\<close> with entries in 0..5 and a
  non-negative scale, \<^verbatim>\<open>noisy_max\<close> returns normally after exactly \<open>5 * N * S\<close> draws.
  The label of sample \<open>(n, s)\<close> is 1 plus the first index of a maximum of its noisy vector:
  the histogram of the classes 1..5 over the teachers, cast to float32, with draw number
  \<open>5 * (n * S + s) + c\<close> of the call added to class \<open>c\<close>, so every class of every sample
  has a draw of its own.
\<close>

theorem noisy_max_spec:
  assumes "wf3 p" and "shape3 p = (T, N, S)"
    and "list_all (\<lambda>v. 0 \<le> v \<and> v \<le> 5) (entries3 p)"
    and "0 \<le> lap_scale"
  shows "\<exists>labels cv.
      noisy_max env p lap_scale return_clean_votes g = (Inr (labels, cv), g + 5 * N * S)
    \<and> shape2 labels = (N, S)
    \<and> (\<forall>n<N. \<forall>s<S. \<exists>a.
          is_first_max (noisy_votes env p lap_scale (g + 5 * (n * S + s)) n s) a
        \<and> sint (data2 labels ! n ! s) = int a + 1)"
proof -
  have nonneg: "list_all (\<lambda>v. 0 \<le> v) (entries3 p)"
    using assms(3) by (rule list_all_weaken) simp
  have ok: "bincount_ok p i j \<and> 0 \<le> lap_scale" if "i < N" "j < S" for i j
    using bincount_ok_nonneg [OF assms(1,2) nonneg that] assms(4) by simp
  have "noisy_max env p lap_scale return_clean_votes g
      = (Inr (\<lparr>shape2 = (N, S),
               data2 = map (\<lambda>i. map (\<lambda>j. as_int32 (nm_label env p lap_scale (g + 5 * (i * S + j)) i j))
                        [0..<S]) [0..<N]\<rparr>,
              if return_clean_votes then Some (count_votes p) else None),
         g + 5 * N * S)"
    by (rule nm_closed [OF assms(2)]) (rule ok)
  then show ?thesis
    by (simp add: nm_label_first_max)
qed

text \<open>
  On the scenario of the specification, with the variates \<open>-3/2\<close> and \<open>1/4\<close> for the first
  two classes, the noisy vector is \<open>[1/2, 5/4, 0, 0, 0]\<close> and the label is 2.
\<close>

theorem noisy_max_spec_witness:
  "wf3 scenario \<and> shape3 scenario = (3, 1, 1)
   \<and> list_all (\<lambda>v. 0 \<le> v \<and> v \<le> 5) (entries3 scenario)
   \<and> (0::real) \<le> 1
   \<and> (\<exists>labels cv. noisy_max flipping scenario 1 True 0 = (Inr (labels, cv), 5)
        \<and> shape2 labels = (1, 1)
        \<and> is_first_max (noisy_votes flipping scenario 1 0 0 0) 1
        \<and> sint (data2 labels ! 0 ! 0) = 2)"
proof -
  have h: "wf3 scenario" "shape3 scenario = (3, 1, 1)"
    "list_all (\<lambda>v. 0 \<le> v \<and> v \<le> 5) (entries3 scenario)" "(0::real) \<le> 1"
    by (simp_all add: scenario_def wf3_def entries3_def)
  have nv: "noisy_votes flipping scenario 1 0 0 0 = [1/2, 5/4, 0, 0, 0]"
    by (simp add: scenario_def flipping_def eval_defs upt_rec)
  have fm: "is_first_max (noisy_votes flipping scenario 1 0 0 0) a \<longleftrightarrow> a = 1" for a
    unfolding nv by (auto simp: is_first_max_def less_Suc_eq eval_nat_numeral)
  from noisy_max_spec [OF h, of flipping True 0]
  show ?thesis using h by (auto simp: fm)
qed

text \<open>
  C2. \<^verbatim>\<open>aggregation_most_frequent\<close> is to return, for every sample, 1 plus the first
  index of a maximum of the histogram of the classes 1..5. It does so while the number of
  teachers is below \<open>2^31\<close> (lemma \<open>amf_spec\<close>), and on the two scenarios of the
  specification (lemma \<open>scenario_eval\<close>). Line 122 casts the counts to int32 before the
  argmax: with \<open>2^31\<close> teachers that all vote for class 1 the histogram is
  \<open>[2^31, 0, 0, 0, 0]\<close>, whose first maximum is at index 0, the count wraps to \<open>-2^31\<close>,
  and the function returns label 2.
\<close>

theorem amf_unanimous:
  "is_first_max (votes unanimous 0 0) 0
   \<and> aggregation_most_frequent unanimous = Inr \<lparr>shape2 = (1, 1), data2 = [[2]]\<rparr>"
proof -
  have "amf_label unanimous 0 0 = 2"
    unfolding amf_label_def votes_unanimous
    by (simp add: as_int32_def argmax_ix_def argmax_def)
  moreover have "aggregation_most_frequent unanimous
      = Inr \<lparr>shape2 = (1, 1),
             data2 = map (\<lambda>i. map (\<lambda>j. as_int32 (amf_label unanimous i j)) [0..<1]) [0..<1]\<rparr>"
    by (rule amf_closed [OF shape_unanimous]) (simp add: bincount_ok_unanimous)
  moreover have "is_first_max (votes unanimous 0 0) 0"
    unfolding votes_unanimous by (simp add: is_first_max_def)
  ultimately show ?thesis
    by (simp add: as_int32_def)
qed

text \<open>
  C3. For every prediction tensor with entries in 0..5, every numerics and noise stream and
  every generator state, the clean votes that \<^verbatim>\<open>noisy_max\<close> returns with
  \<^verbatim>\<open>return_clean_votes=True\<close> are the tensor \<open>count_votes\<close> of the specification, and
  its column at \<open>(n, s)\<close> is what the counting step of line 120 of
  \<^verbatim>\<open>aggregation_most_frequent\<close> computes. The noise added afterwards does not reach it.
\<close>

theorem clean_votes_exact:
  assumes "wf3 p" and "shape3 p = (T, N, S)"
    and "list_all (\<lambda>v. 0 \<le> v \<and> v \<le> 5) (entries3 p)"
    and "0 \<le> lap_scale"
  shows "\<exists>labels g'.
      noisy_max env p lap_scale True g = (Inr (labels, Some (count_votes p)), g')
    \<and> (\<forall>n<N. \<forall>s<S.
          label_counts p n s = Inr (map (\<lambda>c. data3 (count_votes p) ! c ! n ! s) [0..<5]))"
proof -
  have nonneg: "list_all (\<lambda>v. 0 \<le> v) (entries3 p)"
    using assms(3) by (rule list_all_weaken) simp
  have ok: "bincount_ok p i j" if "i < N" "j < S" for i j
    using bincount_ok_nonneg [OF assms(1,2) nonneg that] .
  have "noisy_max env p lap_scale True g
      = (Inr (\<lparr>shape2 = (N, S),
               data2 = map (\<lambda>i. map (\<lambda>j. as_int32 (nm_label env p lap_scale (g + 5 * (i * S + j)) i j))
                        [0..<S]) [0..<N]\<rparr>,
              if True then Some (count_votes p) else None),
         g + 5 * N * S)"
    by (rule nm_closed [OF assms(2)]) (simp add: ok assms(4))
  then show ?thesis
    by (simp add: count_votes_column [OF assms(2)] label_counts_ok ok)
qed

text \<open>
  On the scenario of the specification the noise flips the label to 2, and the clean votes
  are still 2, 1, 0, 0, 0.
\<close>

theorem clean_votes_exact_witness:
  "wf3 scenario \<and> shape3 scenario = (3, 1, 1)
   \<and> list_all (\<lambda>v. 0 \<le> v \<and> v \<le> 5) (entries3 scenario)
   \<and> (0::real) \<le> 1
   \<and> count_votes scenario = \<lparr>shape3 = (5, 1, 1), data3 = [[[2]], [[1]], [[0]], [[0]], [[0]]]\<rparr>
   \<and> (\<exists>labels g'. noisy_max flipping scenario 1 True 0
         = (Inr (labels, Some \<lparr>shape3 = (5, 1, 1), data3 = [[[2]], [[1]], [[0]], [[0]], [[0]]]\<rparr>), g'))
   \<and> label_counts scenario 0 0 = Inr [2, 1, 0, 0, 0]"
proof -
  have h: "wf3 scenario" "shape3 scenario = (3, 1, 1)"
    "list_all (\<lambda>v. 0 \<le> v \<and> v \<le> 5) (entries3 scenario)" "(0::real) \<le> 1"
    by (simp_all add: scenario_def wf3_def entries3_def)
  have cv: "count_votes scenario
      = \<lparr>shape3 = (5, 1, 1), data3 = [[[2]], [[1]], [[0]], [[0]], [[0]]]\<rparr>"
    by (simp add: scenario_def eval_defs upt_rec)
  from clean_votes_exact [OF h, of flipping 0]
  show ?thesis using h unfolding cv by (auto simp: upt_rec)
qed

text \<open>
  C4. When every entry of the prediction tensor lies in 1..5, the counts of a sample sum to
  the number of teachers \<open>T\<close>: for the vector that the counting step of lines 75 and 120
  produces, and for the clean votes that \<^verbatim>\<open>noisy_max\<close> returns.
\<close>

theorem vote_conservation:
  assumes "wf3 p" and "shape3 p = (T, N, S)"
    and "list_all (\<lambda>v. 1 \<le> v \<and> v \<le> 5) (entries3 p)"
    and "n < N" and "s < S" and "0 \<le> lap_scale"
  shows "(\<exists>lc. label_counts p n s = Inr lc \<and> sum_list lc = int T)
    \<and> (\<exists>labels cv g'.
          noisy_max env p lap_scale True g = (Inr (labels, Some cv), g')
        \<and> (\<Sum>c\<leftarrow>[0..<5]. data3 cv ! c ! n ! s) = int T)"
proof -
  have nonneg: "list_all (\<lambda>v. 0 \<le> v) (entries3 p)"
    using assms(3) by (rule list_all_weaken) simp
  have ok: "bincount_ok p i j" if "i < N" "j < S" for i j
    using bincount_ok_nonneg [OF assms(1,2) nonneg that] .
  have col: "list_all (\<lambda>v. 1 \<le> v \<and> v \<le> 5) (column p n s)"
    using column_subset [OF assms(1,2,4,5)] assms(3) by (auto simp: list_all_iff)
  then have "filter (\<lambda>v. v = 0 \<or> 5 < v) (column p n s) = []"
    by (auto simp: list_all_iff filter_empty_conv)
  moreover have "list_all (\<lambda>v. 0 \<le> v) (column p n s)"
    using col by (rule list_all_weaken) simp
  ultimately have total: "sum_list (votes p n s) = int T"
    using sum_votes [of "column p n s"] length_column [OF assms(1,2)]
    by (simp add: votes_def)
  have "noisy_max env p lap_scale True g
      = (Inr (\<lparr>shape2 = (N, S),
               data2 = map (\<lambda>i. map (\<lambda>j. as_int32 (nm_label env p lap_scale (g + 5 * (i * S + j)) i j))
                        [0..<S]) [0..<N]\<rparr>,
              if True then Some (count_votes p) else None),
         g + 5 * N * S)"
    by (rule nm_closed [OF assms(2)]) (simp add: ok assms(6))
  then show ?thesis
    using total count_votes_column [OF assms(2,4,5)]
    by (simp add: label_counts_ok ok assms(4,5))
qed

theorem vote_conservation_witness:
  "wf3 scenario \<and> shape3 scenario = (3, 1, 1)
   \<and> list_all (\<lambda>v. 1 \<le> v \<and> v \<le> 5) (entries3 scenario)
   \<and> (0::nat) < 1 \<and> (0::real) \<le> 1
   \<and> (\<exists>lc. label_counts scenario 0 0 = Inr lc \<and> sum_list lc = 3)
   \<and> (\<exists>labels cv g'. noisy_max flipping scenario 1 True 0 = (Inr (labels, Some cv), g')
        \<and> (\<Sum>c\<leftarrow>[0..<5]. data3 cv ! c ! 0 ! 0) = 3)"
proof -
  have h: "wf3 scenario" "shape3 scenario = (3, 1, 1)"
    "list_all (\<lambda>v. 1 \<le> v \<and> v \<le> 5) (entries3 scenario)" "(0::nat) < 1" "(0::nat) < 1"
    "(0::real) \<le> 1"
    by (simp_all add: scenario_def wf3_def entries3_def)
  from vote_conservation [OF h, of flipping 0]
  show ?thesis using h by simp
qed







text \<open>
  C7. For every prediction tensor of shape \<open>(T, N, S)\<close> with entries in 0..5,
  \<^verbatim>\<open>aggregation_most_frequent\<close> returns a label tensor, and whenever \<^verbatim>\<open>noisy_max\<close>
  returns one (it does for every non-negative scale), for any numerics, noise stream and
  generator state, the tensor has shape \<open>(N, S)\<close>, its elements fill that shape, they are
  32-bit signed integers and each lies in 1..5.
\<close>

theorem label_tensor_contract:
  assumes "wf3 p" and "shape3 p = (T, N, S)"
    and "list_all (\<lambda>v. 0 \<le> v \<and> v \<le> 5) (entries3 p)"
  shows "(\<exists>labels. aggregation_most_frequent p = Inr labels \<and> label_tensor N S labels)
    \<and> (\<forall>labels cv g'.
          noisy_max env p lap_scale return_clean_votes g = (Inr (labels, cv), g')
            \<longrightarrow> label_tensor N S labels)
    \<and> (0 \<le> lap_scale \<longrightarrow>
          (\<exists>labels cv g'. noisy_max env p lap_scale return_clean_votes g = (Inr (labels, cv), g')))"
proof -
  have nonneg: "list_all (\<lambda>v. 0 \<le> v) (entries3 p)"
    using assms(3) by (rule list_all_weaken) simp
  have ok: "bincount_ok p i j" if "i < N" "j < S" for i j
    using bincount_ok_nonneg [OF assms(1,2) nonneg that] .
  have "\<exists>labels. aggregation_most_frequent p = Inr labels \<and> label_tensor N S labels"
    using amf_closed [OF assms(2) ok] labels_ok [of "amf_label p" N S]
    by (simp add: amf_label_range)
  moreover have "label_tensor N S labels"
    if "noisy_max env p lap_scale return_clean_votes g = (Inr (labels, cv), g')" for labels cv g'
    using nm_success [OF assms(2) that]
      labels_ok [of "\<lambda>i j. nm_label env p lap_scale (g + 5 * (i * S + j)) i j" N S]
    by (simp add: nm_label_range)
  moreover have "\<exists>labels cv g'.
      noisy_max env p lap_scale return_clean_votes g = (Inr (labels, cv), g')" if "0 \<le> lap_scale"
    using nm_closed [OF assms(2), of lap_scale env return_clean_votes g] ok that by simp
  ultimately show ?thesis by blast
qed

theorem label_tensor_contract_witness:
  "wf3 tied \<and> shape3 tied = (9, 1, 1) \<and> list_all (\<lambda>v. 0 \<le> v \<and> v \<le> 5) (entries3 tied)
   \<and> (0::real) \<le> 1
   \<and> (\<exists>labels. aggregation_most_frequent tied = Inr labels \<and> label_tensor 1 1 labels)
   \<and> noisy_max third_class tied 1 False 0 = (Inr (\<lparr>shape2 = (1, 1), data2 = [[1]]\<rparr>, None), 5)
   \<and> label_tensor 1 1 \<lparr>shape2 = (1, 1), data2 = [[1]]\<rparr>"
proof -
  have h: "wf3 tied" "shape3 tied = (9, 1, 1)"
    "list_all (\<lambda>v. 0 \<le> v \<and> v \<le> 5) (entries3 tied)"
    by (simp_all add: tied_def wf3_def entries3_def)
  have run: "noisy_max third_class tied 1 False 0
      = (Inr (\<lparr>shape2 = (1, 1), data2 = [[1]]\<rparr>, None), 5)"
    by (simp add: tied_def third_class_def eval_defs upt_rec)
  from label_tensor_contract [OF h, of third_class 1 False 0]
  show ?thesis using h run by simp
qed



text \<open>
  C9. The claim is that \<^verbatim>\<open>labels_from_probs\<close> returns, for every finite-valued score
  array with a non-empty last axis of length \<open>K\<close>, the first index of the maximum of each
  row as an int32 in \<open>0..K-1\<close>. The cast to int32 of line 40 wraps an index from
  \<open>2^31\<close> on: for \<open>2^31 + 1\<close> scores with the maximum last, the first maximum is at index
  \<open>2^31\<close> and the label returned is \<open>-2^31\<close>.
\<close>

theorem labels_wrap_counterexample:
  "wf_nd maximum_last \<and> shape maximum_last = [2 ^ 31 + 1]
   \<and> is_first_max (last_axis_row maximum_last 0) (2 ^ 31)
   \<and> (\<exists>labels. labels_from_probs maximum_last = Inr labels
         \<and> shape labels = [] \<and> sint (flat labels ! 0) = - (2 ^ 31))"
proof -
  have w: "wf_nd maximum_last" "shape maximum_last = [2 ^ 31 + 1]"
    by (simp_all add: wf_nd_def maximum_last_def)
  have "labels_from_probs maximum_last
      = Inr \<lparr>shape = butlast (shape maximum_last),
             flat = map (\<lambda>r. as_int32 (int (argmax_ix (last_axis_row maximum_last r))))
                      [0..<prod_list (butlast (shape maximum_last))]\<rparr>"
    by (rule labels_from_probs_closed) (simp_all add: w)
  moreover have "as_int32 (int (argmax_ix (last_axis_row maximum_last 0))) = as_int32 (2 ^ 31)"
    by (simp add: row_maximum_last argmax_ix_last)
  moreover have "sint (as_int32 (2 ^ 31)) = - (2 ^ 31)"
    by (simp add: as_int32_def)
  moreover have "is_first_max (last_axis_row maximum_last 0) (2 ^ 31)"
    unfolding row_maximum_last by (rule first_max_last)
  ultimately show ?thesis
    using w by simp
qed

text \<open>
  C9 as amended: the last axis has at most \<open>2^31\<close> elements. Then, for a well-formed
  array of rank at least 1 whose last axis is not empty, \<^verbatim>\<open>labels_from_probs\<close> returns an
  array of the shape without its last axis, with one int32 per row of scores: the first
  index of the maximum of the row, which lies in \<open>0..K-1\<close>.
\<close>

theorem labels_from_probs_spec:
  assumes "wf_nd probs" and "shape probs \<noteq> []"
    and "0 < last (shape probs)" and "last (shape probs) \<le> 2 ^ 31"
  shows "\<exists>labels.
      labels_from_probs probs = Inr labels
    \<and> shape labels = butlast (shape probs) \<and> wf_nd labels
    \<and> (\<forall>r < prod_list (butlast (shape probs)). \<exists>a.
          is_first_max (last_axis_row probs r) a
        \<and> sint (flat labels ! r) = int a
        \<and> a < last (shape probs))"
proof -
  have "\<exists>a. is_first_max (last_axis_row probs r) a
      \<and> sint (as_int32 (int (argmax_ix (last_axis_row probs r)))) = int a
      \<and> a < last (shape probs)" if "r < prod_list (butlast (shape probs))" for r
  proof -
    have len: "length (last_axis_row probs r) = last (shape probs)"
      using assms(1,2) that by (rule length_last_axis_row)
    with assms(3) have ne: "last_axis_row probs r \<noteq> []" by auto
    from argmax_ix_less [OF ne] len assms(4)
    have "int (argmax_ix (last_axis_row probs r)) < 2 ^ 31"
      by simp
    then have "sint (as_int32 (int (argmax_ix (last_axis_row probs r))))
        = int (argmax_ix (last_axis_row probs r))"
      by (intro sint_as_int32) simp_all
    with argmax_first_max [OF ne] argmax_ix_less [OF ne] len show ?thesis
      by auto
  qed
  then show ?thesis
    unfolding labels_from_probs_closed [OF assms(1-3)]
    by (simp add: wf_nd_def)
qed

theorem labels_from_probs_spec_witness:
  "wf_nd two_rows \<and> shape two_rows \<noteq> [] \<and> 0 < last (shape two_rows)
   \<and> last (shape two_rows) \<le> 2 ^ 31
   \<and> labels_from_probs two_rows = Inr \<lparr>shape = [2], flat = [1, 0]\<rparr>
   \<and> (\<exists>labels. labels_from_probs two_rows = Inr labels
         \<and> shape labels = butlast (shape two_rows) \<and> wf_nd labels
         \<and> (\<exists>a. is_first_max (last_axis_row two_rows 0) a \<and> sint (flat labels ! 0) = int a
               \<and> a < last (shape two_rows))
         \<and> (\<exists>a. is_first_max (last_axis_row two_rows 1) a \<and> sint (flat labels ! 1) = int a
               \<and> a < last (shape two_rows)))"
proof -
  have h: "wf_nd two_rows" "shape two_rows \<noteq> []" "0 < last (shape two_rows)"
    "last (shape two_rows) \<le> 2 ^ 31"
    by (simp_all add: two_rows_def wf_nd_def)
  have run: "labels_from_probs two_rows = Inr \<lparr>shape = [2], flat = [1, 0]\<rparr>"
    by (simp add: two_rows_def eval_defs upt_rec)
  have rows: "prod_list (butlast (shape two_rows)) = 2"
    by (simp add: two_rows_def)
  from labels_from_probs_spec [OF h] obtain labels where
    l: "labels_from_probs two_rows = Inr labels" "shape labels = butlast (shape two_rows)"
      "wf_nd labels"
    and every: "\<forall>r < prod_list (butlast (shape two_rows)). \<exists>a.
        is_first_max (last_axis_row two_rows r) a \<and> sint (flat labels ! r) = int a
        \<and> a < last (shape two_rows)"
    by blast
  from every rows have
    "\<exists>a. is_first_max (last_axis_row two_rows 0) a \<and> sint (flat labels ! 0) = int a
        \<and> a < last (shape two_rows)"
    "\<exists>a. is_first_max (last_axis_row two_rows 1) a \<and> sint (flat labels ! 1) = int a
        \<and> a < last (shape two_rows)"
    by simp_all
  with l h run show ?thesis by blast
qed




end
